theory Spec2Isabelle
  imports Main "HOL-Library.Sublist" "HOL-Library.AList"
begin

section \<open>StreamMessagesHandler (langgraph/pregel/messages.py)\<close>

text \<open>
  The handler is a callback object with two fields of its own, the registry
  \<open>self.metadata\<close> (run identifier to namespace path and metadata) and the set
  \<open>self.seen\<close> of message identities, and a sink \<open>self.stream\<close> that it calls
  once for every message it forwards.  The model passes the state explicitly.
  Python objects are references: the values the handler walks through live in a
  heap that it only reads, the messages live in a store that it writes
  (\<open>message.id = str(uuid4())\<close>), so that shared and cyclic values are values of
  the model as well.
\<close>

subsection \<open>Data\<close>

type_synonym ident = string
type_synonym run_id = nat
type_synonym maddr = nat
type_synonym addr = nat

text \<open>A \<open>BaseMessage\<close>: the optional \<open>id\<close> and the content.\<close>

record message =
  msg_id :: "ident option"
  content :: string

text \<open>The exceptions that the modelled code can meet.\<close>

datatype exc = AttributeError | KeyError | ValueError | OtherError string

text \<open>
  A reference is \<open>None\<close>, a \<open>BaseMessage\<close> instance (an address of the message
  store) or any other object (an address of the heap).
\<close>

datatype pyref = RNone | RMsg maddr | RObj addr

text \<open>What \<open>getattr(obj, key)\<close> does: it gives a value or it raises.\<close>

datatype attr = Gives pyref | Raises exc

text \<open>
  The shapes of object that \<open>_process_response\<close> and \<open>on_chain_start\<close> tell apart:
  a \<open>str\<close>, a \<open>dict\<close> (items in insertion order), a \<open>Sequence\<close> that is not a
  \<open>str\<close>, and any other object.  Of the last the model keeps whether it is an
  instance of \<open>Command\<close>, whether \<open>hasattr(obj, "__dir__") and
  callable(obj.__dir__)\<close> holds (it does for every object whose class leaves
  \<open>object.__dir__\<close> alone), and the names that \<open>dir(obj)\<close> lists, in that order,
  each with what reading it does.
\<close>

datatype pyobj =
    OStr string
  | ODict "(string \<times> pyref) list"
  | OSeq "pyref list"
  | OObj (is_command: bool) (dir_callable: bool) (attrs: "(string \<times> attr) list")

type_synonym heap = "addr \<Rightarrow> pyobj"

text \<open>Metadata records (\<open>dict[str, Any]\<close>) and the values the handler reads in them.\<close>

datatype mval = MNone | MStr string | MList "string list"

type_synonym mdict = "(string \<times> mval) list"

text \<open>\<open>Meta = tuple[tuple[str, ...], dict[str, Any]]\<close>\<close>

type_synonym meta = "string list \<times> mdict"

text \<open>
  One call of the sink: \<open>self.stream((meta[0], "messages", (message, meta[1])))\<close>.
  The record keeps the message reference together with the message and the
  metadata as they are when the call is made.
\<close>

record chunk =
  chunk_ns :: "string list"
  chunk_mode :: string
  chunk_ref :: maddr
  chunk_msg :: message
  chunk_md :: mdict

text \<open>
  The state: the handler's two fields, the message store, the calls made to the
  sink so far (oldest first), and the source of \<open>uuid4()\<close>: the \<open>n\<close>-th call
  returns \<open>uuid_source n\<close>.
\<close>

record state =
  metadata :: "run_id \<rightharpoonup> meta"
  seen :: "ident option set"
  msgs :: "maddr \<Rightarrow> message"
  stream :: "chunk list"
  uuid_source :: "nat \<Rightarrow> ident"
  uuid_calls :: nat

text \<open>
  The constants imported from \<open>langgraph.constants\<close>, whose values are not part
  of the file: they are parameters of the model.
\<close>

record constants =
  NS_SEP :: string
  TAG_HIDDEN :: string
  TAG_NOSTREAM :: string

text \<open>\<open>__init__\<close>: an empty registry and an empty Seen-Set.\<close>

definition init :: "(maddr \<Rightarrow> message) \<Rightarrow> (nat \<Rightarrow> ident) \<Rightarrow> state" where
  "init M G = \<lparr>metadata = Map.empty, seen = {}, msgs = M, stream = [],
                uuid_source = G, uuid_calls = 0\<rparr>"

subsection \<open>The emitter\<close>

text \<open>\<open>str(uuid4())\<close>: the next identity of the source.\<close>

definition uuid4 :: "state \<Rightarrow> ident" where
  "uuid4 s = uuid_source s (uuid_calls s)"

text \<open>The assignment \<open>message.id = str(uuid4())\<close> of \<open>_emit\<close>.\<close>

definition assign_id :: "maddr \<Rightarrow> state \<Rightarrow> state" where
  "assign_id message s =
     s\<lparr>msgs := (msgs s)(message := (msgs s message)\<lparr>msg_id := Some (uuid4 s)\<rparr>),
       uuid_calls := Suc (uuid_calls s)\<rparr>"

definition emit :: "meta \<Rightarrow> maddr \<Rightarrow> bool \<Rightarrow> state \<Rightarrow> state" where
  "emit meta message dedupe s =
     (if dedupe \<and> msg_id (msgs s message) \<in> seen s then s
      else
        let s1 = (if msg_id (msgs s message) = None then assign_id message s else s);
            s2 = s1\<lparr>seen := insert (msg_id (msgs s1 message)) (seen s1)\<rparr>
        in s2\<lparr>stream := stream s2 @
                 [\<lparr>chunk_ns = fst meta, chunk_mode = ''messages'', chunk_ref = message,
                   chunk_msg = msgs s2 message, chunk_md = snd meta\<rparr>]\<rparr>)"

subsection \<open>The recursive extractor\<close>

text \<open>\<open>key.startswith("__") and key.endswith("__")\<close>\<close>

definition is_dunder :: "string \<Rightarrow> bool" where
  "is_dunder key \<longleftrightarrow> prefix ''__'' key \<and> suffix ''__'' key"

text \<open>
  \<open>_process_response\<close>, with its two loops: \<open>process_items\<close> is the loop over the
  values of a dict or the items of a sequence, \<open>process_attrs\<close> the loop over
  \<open>dir(response)\<close>, whose \<open>try\<close> covers the read and the recursive call and
  catches \<open>AttributeError\<close> only.  The depth passed to the loops is the one of
  the recursive calls, \<open>depth + 1\<close>.  A result is the exception that leaves the
  call, if any, and the state at that moment.

  A \<open>str\<close> takes the \<open>__dir__\<close> branch in the source: the names that are not
  skipped are its methods, and every name that \<open>dir\<close> lists for a method is
  skipped, so that nothing is emitted.
\<close>

function process_response :: "heap \<Rightarrow> pyref \<Rightarrow> meta \<Rightarrow> nat \<Rightarrow> state \<Rightarrow> exc option \<times> state"
  and process_items :: "heap \<Rightarrow> pyref list \<Rightarrow> meta \<Rightarrow> nat \<Rightarrow> state \<Rightarrow> exc option \<times> state"
  and process_attrs :: "heap \<Rightarrow> (string \<times> attr) list \<Rightarrow> meta \<Rightarrow> nat \<Rightarrow> state \<Rightarrow> exc option \<times> state"
where
  "process_response H response meta depth s =
     (if response = RNone then (None, s)
      else if depth \<ge> 5 then (None, s)
      else (case response of
          RNone \<Rightarrow> (None, s)
        | RMsg message \<Rightarrow> (None, emit meta message True s)
        | RObj a \<Rightarrow> (case H a of
              ODict items \<Rightarrow> process_items H (map snd items) meta (depth + 1) s
            | OSeq items \<Rightarrow> process_items H items meta (depth + 1) s
            | OStr _ \<Rightarrow> (None, s)
            | OObj is_cmd has_dir names \<Rightarrow>
                if has_dir then process_attrs H names meta (depth + 1) s
                else if is_cmd then
                  (case map_of names ''update'' of
                     None \<Rightarrow> (Some AttributeError, s)
                   | Some (Raises e) \<Rightarrow> (Some e, s)
                   | Some (Gives upd) \<Rightarrow> process_response H upd meta (depth + 1) s)
                else (None, s))))"
| "process_items H [] meta d s = (None, s)"
| "process_items H (item # rest) meta d s =
     (case process_response H item meta d s of
        (None, s') \<Rightarrow> process_items H rest meta d s'
      | (Some e, s') \<Rightarrow> (Some e, s'))"
| "process_attrs H [] meta d s = (None, s)"
| "process_attrs H ((key, a) # rest) meta d s =
     (if is_dunder key then process_attrs H rest meta d s
      else (case a of
          Raises e \<Rightarrow>
            if e = AttributeError then process_attrs H rest meta d s else (Some e, s)
        | Gives v \<Rightarrow>
            (case process_response H v meta d s of
               (None, s') \<Rightarrow> process_attrs H rest meta d s'
             | (Some e, s') \<Rightarrow>
                 if e = AttributeError then process_attrs H rest meta d s'
                 else (Some e, s'))))"
  by pat_completeness auto
termination
  by (relation "inv_image (less_than <*lex*> less_than)
        (\<lambda>x. case x of
            Inl (H, r, meta, d, s) \<Rightarrow> (5 - d, 0)
          | Inr (Inl (H, xs, meta, d, s)) \<Rightarrow> (5 - d, Suc (length xs))
          | Inr (Inr (H, fs, meta, d, s)) \<Rightarrow> (5 - d, Suc (length fs)))")
     auto

subsection \<open>Reading tags and metadata\<close>

text \<open>\<open>not tags\<close>, \<open>TAG in tags\<close> and \<open>tags or []\<close> for \<open>tags: Optional[list[str]]\<close>.\<close>

definition not_tags :: "string list option \<Rightarrow> bool" where
  "not_tags tags = (case tags of None \<Rightarrow> True | Some ts \<Rightarrow> ts = [])"

definition tag_in :: "string \<Rightarrow> string list option \<Rightarrow> bool" where
  "tag_in t tags = (case tags of None \<Rightarrow> False | Some ts \<Rightarrow> t \<in> set ts)"

definition tags_or_empty :: "string list option \<Rightarrow> string list" where
  "tags_or_empty tags = (case tags of None \<Rightarrow> [] | Some ts \<Rightarrow> ts)"

text \<open>\<open>metadata.get(key)\<close>: \<open>None\<close> for a key that is absent.\<close>

definition dict_get :: "mdict \<Rightarrow> string \<Rightarrow> mval" where
  "dict_get md key = (case map_of md key of None \<Rightarrow> MNone | Some v \<Rightarrow> v)"

text \<open>
  \<open>str.split(sep)\<close> for a separator that is not empty: the pieces between the
  occurrences of \<open>sep\<close>, found from the left; \<open>cur\<close> is the piece being read.
  An empty separator raises \<open>ValueError\<close>.
\<close>

function split_from :: "string \<Rightarrow> string \<Rightarrow> string \<Rightarrow> string list" where
  "split_from sep cur [] = [cur]"
| "split_from sep cur (c # cs) =
     (if sep \<noteq> [] \<and> prefix sep (c # cs)
      then cur # split_from sep [] (drop (length sep) (c # cs))
      else split_from sep (cur @ [c]) cs)"
  by pat_completeness auto
termination
  by (relation "measure (\<lambda>(sep, cur, rest). length rest)") auto

definition str_split :: "string \<Rightarrow> string \<Rightarrow> exc + string list" where
  "str_split sep str = (if sep = [] then Inl ValueError else Inr (split_from sep [] str))"

text \<open>
  \<open>tuple(cast(str, metadata["langgraph_checkpoint_ns"]).split(NS_SEP))\<close>: a missing
  key raises \<open>KeyError\<close>, a value without \<open>split\<close> raises \<open>AttributeError\<close>.
\<close>

definition checkpoint_ns :: "constants \<Rightarrow> mdict \<Rightarrow> exc + string list" where
  "checkpoint_ns K md =
     (case map_of md ''langgraph_checkpoint_ns'' of
        None \<Rightarrow> Inl KeyError
      | Some (MStr str) \<Rightarrow> str_split (NS_SEP K) str
      | Some _ \<Rightarrow> Inl AttributeError)"

subsection \<open>The event handlers\<close>

text \<open>\<open>self.metadata.pop(run_id, None)\<close>\<close>

definition pop_run :: "run_id \<Rightarrow> state \<Rightarrow> state" where
  "pop_run run s = s\<lparr>metadata := (metadata s)(run := None)\<rparr>"

definition on_chat_model_start ::
  "constants \<Rightarrow> run_id \<Rightarrow> string list option \<Rightarrow> mdict option \<Rightarrow> state \<Rightarrow> exc option \<times> state" where
  "on_chat_model_start K run tags mdata s =
     (case mdata of
        None \<Rightarrow> (None, s)
      | Some md \<Rightarrow>
          if md \<noteq> [] \<and> (not_tags tags \<or> \<not> tag_in (TAG_NOSTREAM K) tags)
          then (case checkpoint_ns K md of
                  Inl e \<Rightarrow> (Some e, s)
                | Inr path \<Rightarrow> (None, s\<lparr>metadata := (metadata s)(run \<mapsto> (path, md))\<rparr>))
          else (None, s))"

text \<open>
  The argument \<open>chunk\<close> of \<open>on_llm_new_token\<close>: a \<open>ChatGenerationChunk\<close> with its
  message, or something else.
\<close>

datatype gen_chunk = ChatGenerationChunk maddr | OtherChunk

text \<open>
  \<open>meta[1]["tags"] = filtered_tags\<close> writes into the metadata record that the
  registry entry holds, so the entry is updated.
\<close>

definition on_llm_new_token ::
  "gen_chunk option \<Rightarrow> run_id \<Rightarrow> string list option \<Rightarrow> state \<Rightarrow> state" where
  "on_llm_new_token chunk run tags s =
     (case chunk of
        Some (ChatGenerationChunk message) \<Rightarrow>
          (case metadata s run of
             Some meta \<Rightarrow>
               let filtered_tags = filter (\<lambda>t. \<not> prefix ''seq:step'' t) (tags_or_empty tags);
                   meta' = (if filtered_tags \<noteq> []
                            then (fst meta, AList.update ''tags'' (MList filtered_tags) (snd meta))
                            else meta)
               in emit meta' message False (s\<lparr>metadata := (metadata s)(run \<mapsto> meta')\<rparr>)
           | None \<Rightarrow> s)
      | _ \<Rightarrow> s)"

definition on_llm_end :: "run_id \<Rightarrow> state \<Rightarrow> state" where
  "on_llm_end run s = pop_run run s"

definition on_llm_error :: "run_id \<Rightarrow> state \<Rightarrow> state" where
  "on_llm_error run s = pop_run run s"

text \<open>The two loops of \<open>on_chain_start\<close> over the inputs.\<close>

definition seed :: "pyref \<Rightarrow> state \<Rightarrow> state" where
  "seed v s =
     (case v of
        RMsg m \<Rightarrow> (if msg_id (msgs s m) \<noteq> None
                   then s\<lparr>seen := insert (msg_id (msgs s m)) (seen s)\<rparr> else s)
      | _ \<Rightarrow> s)"

fun seed_items :: "pyref list \<Rightarrow> state \<Rightarrow> state" where
  "seed_items [] s = s"
| "seed_items (item # rest) s = seed_items rest (seed item s)"

fun seed_inputs :: "heap \<Rightarrow> (string \<times> pyref) list \<Rightarrow> state \<Rightarrow> state" where
  "seed_inputs H [] s = s"
| "seed_inputs H ((key, v) # rest) s =
     seed_inputs H rest
       (case v of
          RMsg m \<Rightarrow> seed v s
        | RObj a \<Rightarrow> (case H a of OSeq items \<Rightarrow> seed_items items s | _ \<Rightarrow> s)
        | RNone \<Rightarrow> s)"

text \<open>\<open>name\<close> is \<open>kwargs.get("name")\<close>.\<close>

definition on_chain_start ::
  "constants \<Rightarrow> heap \<Rightarrow> pyref \<Rightarrow> run_id \<Rightarrow> string list option \<Rightarrow> mdict option \<Rightarrow> mval
     \<Rightarrow> state \<Rightarrow> exc option \<times> state" where
  "on_chain_start K H inputs run tags mdata name s =
     (case mdata of
        None \<Rightarrow> (None, s)
      | Some md \<Rightarrow>
          if md \<noteq> [] \<and> name = dict_get md ''langgraph_node''
             \<and> (not_tags tags \<or> \<not> tag_in (TAG_HIDDEN K) tags)
          then (case checkpoint_ns K md of
                  Inl e \<Rightarrow> (Some e, s)
                | Inr path \<Rightarrow>
                    let s1 = s\<lparr>metadata := (metadata s)(run \<mapsto> (path, md))\<rparr>
                    in (None,
                        case inputs of
                          RObj a \<Rightarrow> (case H a of ODict items \<Rightarrow> seed_inputs H items s1 | _ \<Rightarrow> s1)
                        | _ \<Rightarrow> s1))
          else (None, s))"

definition on_chain_end :: "heap \<Rightarrow> pyref \<Rightarrow> run_id \<Rightarrow> state \<Rightarrow> exc option \<times> state" where
  "on_chain_end H response run s =
     (case metadata s run of
        Some meta \<Rightarrow> process_response H response meta 0 (pop_run run s)
      | None \<Rightarrow> (None, pop_run run s))"

definition on_chain_error :: "run_id \<Rightarrow> state \<Rightarrow> state" where
  "on_chain_error run s = pop_run run s"

subsection \<open>Sequences of events\<close>

datatype event =
    ChatModelStart run_id "string list option" "mdict option"
  | LLMNewToken "gen_chunk option" run_id "string list option"
  | LLMEnd run_id
  | LLMError run_id
  | ChainStart pyref run_id "string list option" "mdict option" mval
  | ChainEnd pyref run_id
  | ChainError run_id

fun handle :: "constants \<Rightarrow> heap \<Rightarrow> event \<Rightarrow> state \<Rightarrow> exc option \<times> state" where
  "handle K H (ChatModelStart run tags mdata) s = on_chat_model_start K run tags mdata s"
| "handle K H (LLMNewToken chunk run tags) s = (None, on_llm_new_token chunk run tags s)"
| "handle K H (LLMEnd run) s = (None, on_llm_end run s)"
| "handle K H (LLMError run) s = (None, on_llm_error run s)"
| "handle K H (ChainStart inputs run tags mdata name) s =
     on_chain_start K H inputs run tags mdata name s"
| "handle K H (ChainEnd response run) s = on_chain_end H response run s"
| "handle K H (ChainError run) s = (None, on_chain_error run s)"

text \<open>
  The host delivers the events one after the other to the same handler object;
  an exception leaves the call, and the object stays as it is at that moment.
\<close>

fun run_events :: "constants \<Rightarrow> heap \<Rightarrow> event list \<Rightarrow> state \<Rightarrow> state" where
  "run_events K H [] s = s"
| "run_events K H (ev # evs) s = run_events K H evs (snd (handle K H ev s))"

subsection \<open>The extractor in the words of the specification\<close>








subsection \<open>Predicates on states\<close>


subsection \<open>Concrete stores, heaps and states\<close>

text \<open>A message store in which no message has an identity yet.\<close>

definition blank :: "maddr \<Rightarrow> message" where
  "blank = (\<lambda>m. \<lparr>msg_id = None, content = []\<rparr>)"

text \<open>Values for the constants, a source of identities, metadata records and stores.\<close>

definition example_constants :: constants where
  "example_constants =
     \<lparr>NS_SEP = ''|'', TAG_HIDDEN = ''langsmith:hidden'', TAG_NOSTREAM = ''langsmith:nostream''\<rparr>"

definition uuids :: "nat \<Rightarrow> ident" where
  "uuids n = ''uuid-'' @ replicate n CHR ''0''"

definition md_a :: mdict where
  "md_a = [(''langgraph_checkpoint_ns'', MStr ''a'')]"

definition md_b :: mdict where
  "md_b = [(''langgraph_node'', MStr ''N''), (''langgraph_checkpoint_ns'', MStr ''b'')]"

definition store_hi :: "maddr \<Rightarrow> message" where
  "store_hi = blank(0 := \<lparr>msg_id = None, content = ''Hi''\<rparr>)"

definition store_m :: "maddr \<Rightarrow> message" where
  "store_m = blank(1 := \<lparr>msg_id = Some ''m1'', content = ''one''\<rparr>,
                   2 := \<lparr>msg_id = Some ''m2'', content = ''two''\<rparr>,
                   3 := \<lparr>msg_id = Some ''m3'', content = ''three''\<rparr>)"

definition no_objects :: heap where
  "no_objects = (\<lambda>a. OSeq [])"

text \<open>States in which a run is registered and the identity \<open>m1\<close> has been seen.\<close>

definition state_a :: state where
  "state_a = (init store_m uuids)\<lparr>metadata := [1 \<mapsto> ([''a''], md_a)], seen := {Some ''m1''}\<rparr>"

definition state_b :: state where
  "state_b = (init store_m uuids)\<lparr>metadata := [2 \<mapsto> ([''b''], md_b)], seen := {Some ''m1''}\<rparr>"

text \<open>A heap whose objects are all the dict \<open>{"out": message 1}\<close>.\<close>

definition heap_out :: heap where
  "heap_out = (\<lambda>a. ODict [(''out'', RMsg 1)])"

text \<open>A state in which run 2 is registered and message 0 has no identity.\<close>

definition state_hi :: state where
  "state_hi = (init store_hi uuids)\<lparr>metadata := [2 \<mapsto> ([''b''], md_b)], seen := {Some ''m1''}\<rparr>"

text \<open>
  The inputs \<open>{"msg": message 1, "messages": [message 2]}\<close> at address 0 and the
  response \<open>{"out": message 1, "more": [message 2]}\<close> at address 2.
\<close>

definition heap_io :: heap where
  "heap_io = (\<lambda>a. OSeq [])
     (0 := ODict [(''msg'', RMsg 1), (''messages'', RObj 1)],
      1 := OSeq [RMsg 2],
      2 := ODict [(''out'', RMsg 1), (''more'', RObj 1)])"



text \<open>
  An object with two attributes, \<open>a\<close> and \<open>b\<close>, where \<open>b\<close> holds message 2 and
  reading \<open>a\<close> raises: a \<open>ValueError\<close> in \<open>heap_raise\<close>, an \<open>AttributeError\<close> in
  \<open>heap_attr\<close>.
\<close>

definition heap_raise :: heap where
  "heap_raise = (\<lambda>a. OObj False True
     [(''a'', Raises (OtherError ''ValueError'')), (''b'', Gives (RMsg 2))])"

definition heap_attr :: heap where
  "heap_attr = (\<lambda>a. OObj False True [(''a'', Raises AttributeError), (''b'', Gives (RMsg 2))])"

text \<open>
  \<open>Command(update=None, resume=message 2)\<close> at address 0, with the fields that
  \<open>dir\<close> lists for it; \<open>goto\<close> is the empty tuple at address 1.
\<close>

definition heap_cmd :: heap where
  "heap_cmd = (\<lambda>a. OSeq [])
     (0 := OObj True True
        [(''goto'', Gives (RObj 1)), (''graph'', Gives RNone), (''resume'', Gives (RMsg 2)),
         (''update'', Gives RNone)])"


text \<open>The events of a model call that a node makes while it runs.\<close>

definition model_events :: "event list" where
  "model_events =
     [ChatModelStart 5 None (Some md_a), LLMNewToken (Some (ChatGenerationChunk 3)) 5 None,
      LLMEnd 5]"


section \<open>Properties\<close>

declare process_response.simps [simp del]

subsection \<open>The emitter and the registry\<close>

lemma emit_metadata: "metadata (emit meta m dd s) = metadata s"
  by (simp add: emit_def assign_id_def Let_def)

lemma emit_seen_mono: "seen s \<subseteq> seen (emit meta m dd s)"
  by (auto simp: emit_def assign_id_def Let_def)

lemma emit_dedupe_seen: "msg_id (msgs s m) \<in> seen s \<Longrightarrow> emit meta m True s = s"
  by (simp add: emit_def)

lemma emit_keeps_id:
  "msg_id (msgs s m') \<noteq> None \<Longrightarrow> msgs (emit meta m dd s) m' = msgs s m'"
  by (auto simp: emit_def assign_id_def Let_def)

lemma pop_run_absent: "metadata s run = None \<Longrightarrow> pop_run run s = s"
  by (simp add: pop_run_def fun_upd_idem)

subsection \<open>What every emission of a traversal preserves\<close>

text \<open>
  A traversal changes the state only through \<open>_emit\<close> with \<open>dedupe=True\<close>: a
  relation between states that is reflexive and transitive and that holds across
  one such call holds between the state before and the state after a traversal,
  whether it returns or raises.
\<close>

lemma process_rel:
  assumes refl: "\<And>s. R s s"
    and trans: "\<And>s t u. R s t \<Longrightarrow> R t u \<Longrightarrow> R s u"
    and step: "\<And>meta m s. R s (emit meta m True s)"
  shows "R s (snd (process_response H r meta d s))"
    and "R s (snd (process_items H xs meta d s))"
    and "R s (snd (process_attrs H fs meta d s))"
proof (induction H r meta d s and H xs meta d s and H fs meta d s
    rule: process_response_process_items_process_attrs.induct)
  case (1 H response meta depth s)
  show ?case
  proof (cases "response = RNone \<or> 5 \<le> depth")
    case True
    then show ?thesis by (auto simp: process_response.simps refl)
  next
    case False
    then have nz: "response \<noteq> RNone" and lt: "\<not> 5 \<le> depth" by auto
    show ?thesis
    proof (cases response)
      case RNone
      with nz show ?thesis by simp
    next
      case (RMsg m)
      with lt show ?thesis by (simp add: process_response.simps step)
    next
      case (RObj a)
      show ?thesis
      proof (cases "H a")
        case (OStr x)
        with RObj lt show ?thesis by (simp add: process_response.simps refl)
      next
        case (ODict items)
        with RObj lt "1.IH"(1)[OF nz lt RObj ODict] show ?thesis
          by (simp add: process_response.simps)
      next
        case (OSeq items)
        with RObj lt "1.IH"(2)[OF nz lt RObj OSeq] show ?thesis
          by (simp add: process_response.simps)
      next
        case (OObj c hd names)
        note ih3 = "1.IH"(3)[OF nz lt RObj OObj]
        note ih4 = "1.IH"(4)[OF nz lt RObj OObj]
        show ?thesis
        proof (cases hd)
          case True
          with RObj lt OObj ih3 show ?thesis by (simp add: process_response.simps)
        next
          case False
          with RObj lt OObj ih4 show ?thesis
            by (auto simp: process_response.simps refl split: option.splits attr.splits)
        qed
      qed
    qed
  qed
next
  case (2 H meta d s)
  show ?case by (simp add: refl)
next
  case (3 H item rest meta d s)
  show ?case
  proof (cases "process_response H item meta d s")
    case (Pair e s')
    with "3.IH"(1) have a: "R s s'" by simp
    show ?thesis
    proof (cases e)
      case None
      with Pair "3.IH"(2)[OF Pair[symmetric] None]
      have "R s' (snd (process_items H rest meta d s'))" by simp
      with a None Pair show ?thesis by (auto intro: trans)
    next
      case (Some x)
      with a Pair show ?thesis by simp
    qed
  qed
next
  case (4 H meta d s)
  show ?case by (simp add: refl)
next
  case (5 H key a rest meta d s)
  show ?case
  proof (cases "is_dunder key")
    case True
    with "5.IH"(1) show ?thesis by simp
  next
    case nd: False
    show ?thesis
    proof (cases a)
      case (Raises e)
      show ?thesis
      proof (cases "e = AttributeError")
        case True
        with nd Raises "5.IH"(5)[OF nd Raises True] show ?thesis by simp
      next
        case False
        with nd Raises show ?thesis by (simp add: refl)
      qed
    next
      case (Gives v)
      show ?thesis
      proof (cases "process_response H v meta d s")
        case (Pair e s')
        with "5.IH"(2)[OF nd Gives] have a: "R s s'" by simp
        show ?thesis
        proof (cases e)
          case None
          from "5.IH"(3)[OF nd Gives Pair[symmetric] None] a nd Gives Pair None
          show ?thesis by (auto intro: trans)
        next
          case (Some x)
          show ?thesis
          proof (cases "x = AttributeError")
            case True
            from "5.IH"(4)[OF nd Gives Pair[symmetric] Some True] a nd Gives Pair Some True
            show ?thesis by (auto intro: trans)
          next
            case False
            with a nd Gives Pair Some show ?thesis by simp
          qed
        qed
      qed
    qed
  qed
qed


lemma emit_forward:
  assumes "\<not> (dd \<and> msg_id (msgs s m) \<in> seen s)"
  shows "stream (emit meta m dd s) = stream s @
           [\<lparr>chunk_ns = fst meta, chunk_mode = ''messages'', chunk_ref = m,
             chunk_msg = msgs (emit meta m dd s) m, chunk_md = snd meta\<rparr>]"
    and "msg_id (msgs (emit meta m dd s) m) =
           (case msg_id (msgs s m) of None \<Rightarrow> Some (uuid4 s) | Some x \<Rightarrow> Some x)"
    and "seen (emit meta m dd s) = insert (msg_id (msgs (emit meta m dd s) m)) (seen s)"
  using assms by (auto simp: emit_def assign_id_def Let_def)

subsection \<open>Invariants of the handlers\<close>

lemma seed_items_frame:
  "metadata (seed_items xs s) = metadata s \<and> msgs (seed_items xs s) = msgs s
   \<and> stream (seed_items xs s) = stream s \<and> uuid_source (seed_items xs s) = uuid_source s
   \<and> uuid_calls (seed_items xs s) = uuid_calls s"
  by (induction xs arbitrary: s) (auto simp: seed_def split: pyref.splits)

lemma seed_inputs_frame:
  "metadata (seed_inputs H kvs s) = metadata s \<and> msgs (seed_inputs H kvs s) = msgs s
   \<and> stream (seed_inputs H kvs s) = stream s \<and> uuid_source (seed_inputs H kvs s) = uuid_source s
   \<and> uuid_calls (seed_inputs H kvs s) = uuid_calls s"
  by (induction H kvs s rule: seed_inputs.induct)
     (auto simp: seed_def seed_items_frame split: pyref.splits pyobj.splits)

text \<open>A property kept by the three ways a handler changes the state is an invariant.\<close>

lemma seed_inv:
  assumes sd: "\<And>m s. P s \<Longrightarrow> msg_id (msgs s m) \<noteq> None \<Longrightarrow>
                 P (s\<lparr>seen := insert (msg_id (msgs s m)) (seen s)\<rparr>)"
  shows "P s \<Longrightarrow> P (seed v s)"
  using sd[of s] by (cases v) (auto simp: seed_def)

lemma seed_items_inv:
  assumes sd: "\<And>m s. P s \<Longrightarrow> msg_id (msgs s m) \<noteq> None \<Longrightarrow>
                 P (s\<lparr>seen := insert (msg_id (msgs s m)) (seen s)\<rparr>)"
  shows "P s \<Longrightarrow> P (seed_items xs s)"
proof (induction xs arbitrary: s)
  case Nil
  then show ?case by simp
next
  case (Cons x xs)
  have "P (seed x s)" using seed_inv[where P=P] sd Cons.prems by blast
  then show ?case using Cons.IH by simp
qed

lemma seed_inputs_inv:
  assumes sd: "\<And>m s. P s \<Longrightarrow> msg_id (msgs s m) \<noteq> None \<Longrightarrow>
                 P (s\<lparr>seen := insert (msg_id (msgs s m)) (seen s)\<rparr>)"
  shows "P s \<Longrightarrow> P (seed_inputs H kvs s)"
proof (induction H kvs s rule: seed_inputs.induct)
  case (1 H s)
  then show ?case by simp
next
  case (2 H key v rest s)
  have "P (case v of RNone \<Rightarrow> s | RMsg m \<Rightarrow> seed v s
            | RObj a \<Rightarrow> (case H a of OSeq items \<Rightarrow> seed_items items s | _ \<Rightarrow> s))"
  proof -
    have a: "P (seed v s)" using seed_inv[where P=P] sd "2.prems" by blast
    have b: "\<And>xs. P (seed_items xs s)" using seed_items_inv[where P=P] sd "2.prems" by blast
    show ?thesis using a b "2.prems" by (auto split: pyref.splits pyobj.splits)
  qed
  then show ?case using "2.IH" by simp
qed

lemma process_inv:
  assumes em: "\<And>meta m dd s. P s \<Longrightarrow> P (emit meta m dd s)"
  shows "P s \<Longrightarrow> P (snd (process_response H r meta d s))"
  using process_rel(1)[where R="\<lambda>s t. P s \<longrightarrow> P t"] em by blast

lemma handle_inv:
  assumes em: "\<And>meta m dd s. P s \<Longrightarrow> P (emit meta m dd s)"
    and rg: "\<And>f s. P s \<Longrightarrow> P (s\<lparr>metadata := f\<rparr>)"
    and sd: "\<And>m s. P s \<Longrightarrow> msg_id (msgs s m) \<noteq> None \<Longrightarrow>
                 P (s\<lparr>seen := insert (msg_id (msgs s m)) (seen s)\<rparr>)"
  shows "P s \<Longrightarrow> P (snd (handle K H ev s))"
proof (cases ev)
  case (ChatModelStart run tags mdata)
  assume "P s"
  then show ?thesis using ChatModelStart
    by (auto simp: on_chat_model_start_def intro: rg split: option.splits sum.splits)
next
  case (LLMNewToken chunk run tags)
  assume "P s"
  then show ?thesis using LLMNewToken
    by (auto simp: on_llm_new_token_def Let_def intro!: em rg split: option.splits gen_chunk.splits)
next
  case (LLMEnd run)
  assume "P s"
  then show ?thesis using LLMEnd by (simp add: on_llm_end_def pop_run_def rg)
next
  case (LLMError run)
  assume "P s"
  then show ?thesis using LLMError by (simp add: on_llm_error_def pop_run_def rg)
next
  case (ChainStart inputs run tags mdata name)
  assume p: "P s"
  have "\<And>path md kvs. P (seed_inputs H kvs (s\<lparr>metadata := (metadata s)(run \<mapsto> (path, md))\<rparr>))"
    using seed_inputs_inv[where P=P] sd rg[OF p] by blast
  then show ?thesis using ChainStart p
    by (auto simp: on_chain_start_def Let_def intro: rg
        split: option.splits sum.splits pyref.splits pyobj.splits)
next
  case (ChainEnd response run)
  assume p: "P s"
  have "P (pop_run run s)" using p by (simp add: pop_run_def rg)
  then have "\<And>meta. P (snd (process_response H response meta 0 (pop_run run s)))"
    using process_inv[where P=P] em by blast
  then show ?thesis using ChainEnd \<open>P (pop_run run s)\<close>
    by (auto simp: on_chain_end_def split: option.splits)
next
  case (ChainError run)
  assume "P s"
  then show ?thesis using ChainError by (simp add: on_chain_error_def pop_run_def rg)
qed

lemma run_events_inv:
  assumes em: "\<And>meta m dd s. P s \<Longrightarrow> P (emit meta m dd s)"
    and rg: "\<And>f s. P s \<Longrightarrow> P (s\<lparr>metadata := f\<rparr>)"
    and sd: "\<And>m s. P s \<Longrightarrow> msg_id (msgs s m) \<noteq> None \<Longrightarrow>
                 P (s\<lparr>seen := insert (msg_id (msgs s m)) (seen s)\<rparr>)"
  shows "P s \<Longrightarrow> P (run_events K H evs s)"
proof (induction evs arbitrary: s)
  case Nil
  then show ?case by simp
next
  case (Cons ev evs)
  have "P (snd (handle K H ev s))"
    using handle_inv[where P=P] em rg sd Cons.prems by blast
  then show ?case using Cons.IH by simp
qed



lemma no_null_emit: "None \<notin> seen s \<Longrightarrow> None \<notin> seen (emit meta m dd s)"
  by (auto simp: emit_def assign_id_def Let_def)

lemma no_null_handle: "None \<notin> seen s \<Longrightarrow> None \<notin> seen (snd (handle K H ev s))"
proof (rule handle_inv[where P="\<lambda>s. None \<notin> seen s"])
  show "\<And>meta m dd s. None \<notin> seen s \<Longrightarrow> None \<notin> seen (emit meta m dd s)"
    by (rule no_null_emit)
qed auto

lemma no_null_run: "None \<notin> seen s \<Longrightarrow> None \<notin> seen (run_events K H evs s)"
proof (rule run_events_inv[where P="\<lambda>s. None \<notin> seen s"])
  show "\<And>meta m dd s. None \<notin> seen s \<Longrightarrow> None \<notin> seen (emit meta m dd s)"
    by (rule no_null_emit)
qed auto

lemma emit_in_seen: "msg_id (msgs (emit meta m dd s) m) \<in> seen (emit meta m dd s)"
  by (auto simp: emit_def assign_id_def Let_def)

lemma process_suppressed:
  assumes "msg_id (msgs s m) = Some X" and "Some X \<in> seen s"
  shows "msgs (snd (process_response H r meta d s)) m = msgs s m
         \<and> Some X \<in> seen (snd (process_response H r meta d s))
         \<and> (\<exists>new. stream (snd (process_response H r meta d s)) = stream s @ new
               \<and> (\<forall>c \<in> set new. chunk_ref c \<noteq> m))"
proof -
  let ?R = "\<lambda>s t. msg_id (msgs s m) = Some X \<and> Some X \<in> seen s \<longrightarrow>
              msgs t m = msgs s m \<and> Some X \<in> seen t
              \<and> (\<exists>new. stream t = stream s @ new \<and> (\<forall>c \<in> set new. chunk_ref c \<noteq> m))"
  have "?R s (snd (process_response H r meta d s))"
  proof (rule process_rel(1)[where R="?R"])
    show "\<And>s. ?R s s" by simp
  next
    fix s t u
    assume st: "?R s t" and tu: "?R t u"
    show "?R s u"
    proof (intro impI)
      assume p: "msg_id (msgs s m) = Some X \<and> Some X \<in> seen s"
      with st obtain n1 where t: "msgs t m = msgs s m" "Some X \<in> seen t"
        "stream t = stream s @ n1" "\<forall>c \<in> set n1. chunk_ref c \<noteq> m" by blast
      with p tu obtain n2 where u: "msgs u m = msgs t m" "Some X \<in> seen u"
        "stream u = stream t @ n2" "\<forall>c \<in> set n2. chunk_ref c \<noteq> m" by auto
      have "stream u = stream s @ (n1 @ n2) \<and> (\<forall>c \<in> set (n1 @ n2). chunk_ref c \<noteq> m)"
        using t u by auto
      then have "\<exists>new. stream u = stream s @ new \<and> (\<forall>c \<in> set new. chunk_ref c \<noteq> m)"
        by (rule exI)
      then show "msgs u m = msgs s m \<and> Some X \<in> seen u
              \<and> (\<exists>new. stream u = stream s @ new \<and> (\<forall>c \<in> set new. chunk_ref c \<noteq> m))"
        using t(1,2) u(1,2) by simp
    qed
  next
    fix meta m' s
    show "?R s (emit meta m' True s)"
    proof (cases "msg_id (msgs s m') \<in> seen s")
      case True
      then show ?thesis by (simp add: emit_dedupe_seen)
    next
      case False
      then have f: "\<not> (True \<and> msg_id (msgs s m') \<in> seen s)" by simp
      show ?thesis
      proof (intro impI)
        assume p: "msg_id (msgs s m) = Some X \<and> Some X \<in> seen s"
        with False have ne: "m' \<noteq> m" by auto
        have a: "msgs (emit meta m' True s) m = msgs s m"
          using p by (simp add: emit_keeps_id)
        have b: "Some X \<in> seen (emit meta m' True s)"
          using p emit_seen_mono[of s meta m' True] by auto
        from emit_forward(1)[OF f, of meta] ne
        have c: "\<exists>new. stream (emit meta m' True s) = stream s @ new
                   \<and> (\<forall>c \<in> set new. chunk_ref c \<noteq> m)" by simp
        from a b c show "msgs (emit meta m' True s) m = msgs s m
             \<and> Some X \<in> seen (emit meta m' True s)
             \<and> (\<exists>new. stream (emit meta m' True s) = stream s @ new
                   \<and> (\<forall>c \<in> set new. chunk_ref c \<noteq> m))" by blast
      qed
    qed
  qed
  with assms show ?thesis by blast
qed

lemma on_chain_end_suppressed:
  assumes "msg_id (msgs s m) = Some X" and "Some X \<in> seen s"
  shows "msgs (snd (on_chain_end H response run s)) m = msgs s m
         \<and> Some X \<in> seen (snd (on_chain_end H response run s))
         \<and> metadata (snd (on_chain_end H response run s)) run = None
         \<and> (\<exists>new. stream (snd (on_chain_end H response run s)) = stream s @ new
               \<and> (\<forall>c \<in> set new. chunk_ref c \<noteq> m))"
proof (cases "metadata s run")
  case None
  with assms show ?thesis by (simp add: on_chain_end_def pop_run_def)
next
  case (Some meta)
  have p: "msg_id (msgs (pop_run run s) m) = Some X" "Some X \<in> seen (pop_run run s)"
    using assms by (simp_all add: pop_run_def)
  have md: "metadata (snd (process_response H response meta 0 (pop_run run s))) run = None"
    using process_inv[where P="\<lambda>t. metadata t run = None", of "pop_run run s" H response meta 0]
    by (simp add: emit_metadata pop_run_def)
  from process_suppressed[OF p, of H response meta 0] md Some show ?thesis
    by (simp add: on_chain_end_def) (simp add: pop_run_def)
qed

lemma new_token_registered:
  assumes "metadata s run = Some meta"
  shows "\<exists>meta'. on_llm_new_token (Some (ChatGenerationChunk m)) run tags s
           = emit meta' m False (s\<lparr>metadata := (metadata s)(run \<mapsto> meta')\<rparr>)"
  using assms unfolding on_llm_new_token_def Let_def
  by (simp only: option.case gen_chunk.case) blast

lemma new_token_emits:
  assumes "metadata s run = Some meta"
  shows "\<exists>c. stream (on_llm_new_token (Some (ChatGenerationChunk m)) run tags s) = stream s @ [c]
           \<and> chunk_ref c = m \<and> msg_id (chunk_msg c) \<noteq> None
           \<and> msg_id (chunk_msg c) \<in> seen (on_llm_new_token (Some (ChatGenerationChunk m)) run tags s)"
    and "metadata (on_llm_new_token (Some (ChatGenerationChunk m)) run tags s) run \<noteq> None"
proof -
  from new_token_registered[OF assms, of m tags] obtain meta' where
    eq: "on_llm_new_token (Some (ChatGenerationChunk m)) run tags s
           = emit meta' m False (s\<lparr>metadata := (metadata s)(run \<mapsto> meta')\<rparr>)" by blast
  let ?s = "s\<lparr>metadata := (metadata s)(run \<mapsto> meta')\<rparr>"
  have f: "\<not> (False \<and> msg_id (msgs ?s m) \<in> seen ?s)" by simp
  from emit_forward[OF f, of meta']
  show "\<exists>c. stream (on_llm_new_token (Some (ChatGenerationChunk m)) run tags s) = stream s @ [c]
           \<and> chunk_ref c = m \<and> msg_id (chunk_msg c) \<noteq> None
           \<and> msg_id (chunk_msg c) \<in> seen (on_llm_new_token (Some (ChatGenerationChunk m)) run tags s)"
    by (auto simp: eq split: option.splits)
  show "metadata (on_llm_new_token (Some (ChatGenerationChunk m)) run tags s) run \<noteq> None"
    by (simp add: eq emit_metadata)
qed

lemma seed_seen_mono: "seen s \<subseteq> seen (seed v s)"
  by (auto simp: seed_def split: pyref.splits)

lemma seed_msgs: "msgs (seed v s) = msgs s"
  by (auto simp: seed_def split: pyref.splits)

lemma seed_items_seen_mono: "seen s \<subseteq> seen (seed_items xs s)"
proof (induction xs arbitrary: s)
  case Nil
  show ?case by simp
next
  case (Cons x xs)
  from seed_seen_mono[of s x] Cons.IH[of "seed x s"] show ?case by auto
qed

lemma seed_items_adds:
  "RMsg m \<in> set xs \<Longrightarrow> msg_id (msgs s m) = Some X \<Longrightarrow> Some X \<in> seen (seed_items xs s)"
proof (induction xs arbitrary: s)
  case Nil
  then show ?case by simp
next
  case (Cons x xs)
  show ?case
  proof (cases "x = RMsg m")
    case True
    with Cons.prems have "Some X \<in> seen (seed x s)" by (simp add: seed_def)
    with seed_items_seen_mono[of "seed x s" xs] show ?thesis by auto
  next
    case False
    with Cons.prems have "RMsg m \<in> set xs" by simp
    moreover from Cons.prems have "msg_id (msgs (seed x s) m) = Some X" by (simp add: seed_msgs)
    ultimately show ?thesis using Cons.IH by simp
  qed
qed

text \<open>What one turn of the outer loop of \<open>on_chain_start\<close> does with a value.\<close>

lemma seed_inputs_Cons:
  "seed_inputs H ((key, v) # rest) s =
     seed_inputs H rest
       (case v of RNone \<Rightarrow> s | RMsg m \<Rightarrow> seed v s
        | RObj a \<Rightarrow> (case H a of OSeq items \<Rightarrow> seed_items items s | _ \<Rightarrow> s))"
  by simp

lemma seed_inputs_seen_mono: "seen s \<subseteq> seen (seed_inputs H kvs s)"
proof (induction H kvs s rule: seed_inputs.induct)
  case (1 H s)
  show ?case by simp
next
  case (2 H key v rest s)
  let ?t = "case v of RNone \<Rightarrow> s | RMsg m \<Rightarrow> seed v s
        | RObj a \<Rightarrow> (case H a of OSeq items \<Rightarrow> seed_items items s | _ \<Rightarrow> s)"
  have "seen s \<subseteq> seen ?t"
    using seed_seen_mono[of s v] seed_items_seen_mono[of s]
    by (auto split: pyref.splits pyobj.splits)
  from this "2.IH" have "seen s \<subseteq> seen (seed_inputs H rest ?t)" by (rule subset_trans)
  then show ?case by (simp only: seed_inputs_Cons)
qed

lemma seed_inputs_adds:
  assumes "(key, v) \<in> set kvs"
    and "v = RMsg m \<or> (\<exists>b xs. v = RObj b \<and> H b = OSeq xs \<and> RMsg m \<in> set xs)"
    and "msg_id (msgs s m) = Some X"
  shows "Some X \<in> seen (seed_inputs H kvs s)"
  using assms
proof (induction H kvs s rule: seed_inputs.induct)
  case (1 H s)
  then show ?case by simp
next
  case (2 H k w rest s)
  let ?t = "case w of RNone \<Rightarrow> s | RMsg m \<Rightarrow> seed w s
        | RObj a \<Rightarrow> (case H a of OSeq items \<Rightarrow> seed_items items s | _ \<Rightarrow> s)"
  have ms: "msgs ?t = msgs s"
    by (auto simp: seed_msgs seed_items_frame split: pyref.splits pyobj.splits)
  show ?case
  proof (cases "(key, v) = (k, w)")
    case True
    with "2.prems"(2,3) have "Some X \<in> seen ?t"
      by (auto simp: seed_def seed_items_adds)
    with seed_inputs_seen_mono[of ?t H rest] have "Some X \<in> seen (seed_inputs H rest ?t)"
      by (rule subsetD)
    then show ?thesis by (simp only: seed_inputs_Cons)
  next
    case False
    with "2.prems"(1) have "(key, v) \<in> set rest" by auto
    moreover from "2.prems"(3) ms have "msg_id (msgs ?t m) = Some X" by simp
    ultimately have "Some X \<in> seen (seed_inputs H rest ?t)"
      using "2.IH" "2.prems"(2) by blast
    then show ?thesis by (simp only: seed_inputs_Cons)
  qed
qed





lemma attrs_skip:
  "process_attrs H (pre @ (key, Raises AttributeError) # post) meta d s
     = process_attrs H (pre @ post) meta d s"
proof (induction pre arbitrary: s)
  case Nil
  show ?case by simp
next
  case (Cons p pre)
  obtain k a where p: "p = (k, a)" by (cases p)
  show ?case
  proof (cases a)
    case (Gives v)
    then show ?thesis using p Cons.IH
      by (cases "process_response H v meta d s") (auto split: option.splits)
  next
    case (Raises e)
    then show ?thesis using p Cons.IH by simp
  qed
qed

subsection \<open>The extractor yields the leaves\<close>











lemma seeded_kept:
  assumes "Some X \<in> seen s" and "msg_id (msgs s m) = Some X"
  shows "Some X \<in> seen (run_events K H evs s) \<and> msg_id (msgs (run_events K H evs s) m) = Some X"
proof (rule run_events_inv[where P="\<lambda>t. Some X \<in> seen t \<and> msg_id (msgs t m) = Some X"])
  show "\<And>meta m' dd s. Some X \<in> seen s \<and> msg_id (msgs s m) = Some X \<Longrightarrow>
          Some X \<in> seen (emit meta m' dd s) \<and> msg_id (msgs (emit meta m' dd s) m) = Some X"
    using emit_seen_mono emit_keeps_id by (metis option.distinct(1) subsetD)
  show "Some X \<in> seen s \<and> msg_id (msgs s m) = Some X" using assms by simp
qed auto

subsection \<open>The claims\<close>

text \<open>
  C9.  The model-end, model-error and node-error handlers remove the entry of
  the run from the registry and touch nothing else: the Seen-Set, the message
  store and the calls made to the sink stay as they are.  Removing is
  idempotent.  For a run that is not registered each of the three handlers, and
  the node-end handler as well, returns the state it was given.
\<close>

theorem end_handlers_remove_run:
  "on_llm_end run s = s\<lparr>metadata := (metadata s)(run := None)\<rparr>
   \<and> on_llm_error run s = s\<lparr>metadata := (metadata s)(run := None)\<rparr>
   \<and> on_chain_error run s = s\<lparr>metadata := (metadata s)(run := None)\<rparr>
   \<and> on_llm_end run (on_llm_end run s) = on_llm_end run s
   \<and> on_llm_error run (on_llm_error run s) = on_llm_error run s
   \<and> on_chain_error run (on_chain_error run s) = on_chain_error run s
   \<and> (metadata s run = None \<longrightarrow>
         on_llm_end run s = s \<and> on_llm_error run s = s \<and> on_chain_error run s = s
         \<and> on_chain_end H response run s = (None, s))"
  by (simp add: on_llm_end_def on_llm_error_def on_chain_error_def on_chain_end_def
      pop_run_absent) (simp add: pop_run_def)

theorem end_handlers_remove_run_witness:
  "metadata (init blank (\<lambda>n. ''u'')) 7 = None
   \<and> on_llm_end 7 (init blank (\<lambda>n. ''u'')) = init blank (\<lambda>n. ''u'')
   \<and> on_chain_end (\<lambda>a. OSeq []) (RMsg 0) 7 (init blank (\<lambda>n. ''u''))
       = (None, init blank (\<lambda>n. ''u''))"
  using end_handlers_remove_run [of 7 "init blank (\<lambda>n. ''u'')" "\<lambda>a. OSeq []" "RMsg 0"]
  by (simp add: init_def)




text \<open>
  C3.  A message whose identity is in the Seen-Set is not emitted by a node-end
  extraction: the emitter with \<open>dedupe=True\<close> returns the state as it is, so does
  the extractor on that message, and among the calls that a node-end event makes
  to the sink, whatever the response, none is for that message; its identity
  stays in the Seen-Set and the message is not changed.  The identity gets into
  the Seen-Set on every path: after any call of the emitter the identity of its
  message is in the Seen-Set.
\<close>

theorem dedup_on_completion:
  assumes "msg_id (msgs s m) = Some X" and "Some X \<in> seen s"
  shows "emit meta m True s = s
         \<and> process_response H (RMsg m) meta d s = (None, s)
         \<and> msgs (snd (on_chain_end H response run s)) m = msgs s m
         \<and> Some X \<in> seen (snd (on_chain_end H response run s))
         \<and> (\<exists>new. stream (snd (on_chain_end H response run s)) = stream s @ new
               \<and> (\<forall>c \<in> set new. chunk_ref c \<noteq> m))
         \<and> msg_id (msgs (emit meta' m' dd s') m') \<in> seen (emit meta' m' dd s')"
proof -
  have a: "emit meta m True s = s" using assms by (simp add: emit_dedupe_seen)
  then have b: "process_response H (RMsg m) meta d s = (None, s)"
    by (simp add: process_response.simps)
  from a b on_chain_end_suppressed[OF assms, of H response run] emit_in_seen[of meta' m' dd s']
  show ?thesis by blast
qed

theorem dedup_on_completion_witness:
  "msg_id (msgs state_b 1) = Some ''m1'' \<and> Some ''m1'' \<in> seen state_b
   \<and> process_response heap_out (RMsg 1) ([''b''], md_b) 0 state_b = (None, state_b)
   \<and> stream (snd (on_chain_end heap_out (RObj 0) 2 state_b)) = []"
proof -
  have h1: "msg_id (msgs state_b 1) = Some ''m1''"
    by (simp add: state_b_def init_def store_m_def)
  have h2: "Some ''m1'' \<in> seen state_b" by (simp add: state_b_def)
  have e: "stream (snd (on_chain_end heap_out (RObj 0) 2 state_b)) = []"
    by (simp add: on_chain_end_def pop_run_def state_b_def init_def store_m_def heap_out_def
        process_response.simps emit_def)
  from dedup_on_completion [OF h1 h2, of "([''b''], md_b)" heap_out 0 "RObj 0" 2] h1 h2 e
  show ?thesis by simp
qed

text \<open>
  C4.  For a registered run a new-token event with a \<open>ChatGenerationChunk\<close> makes
  exactly one call to the sink, for the message of the chunk, whether or not the
  identity of the message is in the Seen-Set, and the identity is in the Seen-Set
  afterwards.  A second new-token event for the same run makes one more call,
  also when it carries the same message or a message with the same identity.
\<close>

theorem new_token_no_dedup:
  assumes "metadata s run = Some meta"
  shows "\<exists>c1 c2.
           stream (on_llm_new_token (Some (ChatGenerationChunk m)) run tags s) = stream s @ [c1]
           \<and> chunk_ref c1 = m \<and> msg_id (chunk_msg c1) \<noteq> None
           \<and> msg_id (chunk_msg c1)
               \<in> seen (on_llm_new_token (Some (ChatGenerationChunk m)) run tags s)
           \<and> stream (on_llm_new_token (Some (ChatGenerationChunk m')) run tags'
                 (on_llm_new_token (Some (ChatGenerationChunk m)) run tags s))
               = stream s @ [c1, c2]
           \<and> chunk_ref c2 = m'"
proof -
  let ?s1 = "on_llm_new_token (Some (ChatGenerationChunk m)) run tags s"
  from new_token_emits(1)[OF assms, of m tags] obtain c1 where
    c1: "stream ?s1 = stream s @ [c1]" "chunk_ref c1 = m" "msg_id (chunk_msg c1) \<noteq> None"
        "msg_id (chunk_msg c1) \<in> seen ?s1" by blast
  from new_token_emits(2)[OF assms, of m tags] obtain meta1 where
    r: "metadata ?s1 run = Some meta1" by blast
  from new_token_emits(1)[OF r, of m' tags'] obtain c2 where
    c2: "stream (on_llm_new_token (Some (ChatGenerationChunk m')) run tags' ?s1) = stream ?s1 @ [c2]"
        "chunk_ref c2 = m'" by blast
  from c1 c2 show ?thesis by simp
qed

theorem new_token_no_dedup_witness:
  "metadata state_a 1 = Some ([''a''], md_a) \<and> msg_id (msgs state_a 1) \<in> seen state_a
   \<and> map chunk_ref (stream (on_llm_new_token (Some (ChatGenerationChunk 1)) 1 None
         (on_llm_new_token (Some (ChatGenerationChunk 1)) 1 None state_a))) = [1, 1]"
proof -
  have h: "metadata state_a 1 = Some ([''a''], md_a)" by (simp add: state_a_def)
  have i: "msg_id (msgs state_a 1) \<in> seen state_a"
    by (simp add: state_a_def init_def store_m_def)
  have e: "stream state_a = []" by (simp add: state_a_def init_def)
  from new_token_no_dedup [OF h, of 1 None 1 None] h i e show ?thesis by auto
qed

text \<open>
  C1.  A \<open>Command\<close> is an object whose \<open>__dir__\<close> is callable, so the \<open>__dir__\<close>
  branch of \<open>_process_response\<close>, which comes before the \<open>Command\<close> branch, takes
  it: every attribute of the container is read and traversed.  For
  \<open>Command(update=None, resume=message 2)\<close> the node-end handler emits message 2,
  which is in the field \<open>resume\<close>.
\<close>

theorem command_fields_all_walked:
  "on_chain_end heap_cmd (RObj 0) 2 state_b
     = (None, emit ([''b''], md_b) 2 True (pop_run 2 state_b))
   \<and> map chunk_ref (stream (snd (on_chain_end heap_cmd (RObj 0) 2 state_b))) = [2]"
  by (simp add: on_chain_end_def state_b_def init_def heap_cmd_def
      process_response.simps is_dunder_def)
     (simp add: emit_def pop_run_def store_m_def)

text \<open>
  C2.  A read that fails with an error other than \<open>AttributeError\<close> is not
  caught: on an object whose attribute \<open>a\<close> raises \<open>ValueError\<close> the node-end
  handler raises that error, and the attribute \<open>b\<close>, which holds a message not
  seen before, is not traversed.
\<close>

theorem field_read_error_propagates:
  "fst (on_chain_end heap_raise (RObj 0) 2 state_b) = Some (OtherError ''ValueError'')
   \<and> stream (snd (on_chain_end heap_raise (RObj 0) 2 state_b)) = []"
  by (simp add: on_chain_end_def pop_run_def state_b_def init_def heap_raise_def
      process_response.simps is_dunder_def)

text \<open>
  C2, amended.  A read that fails with \<open>AttributeError\<close> is skipped: the loop
  over the names behaves as if the name were not listed, so the error does not
  leave the call and the names after it are traversed; the extractor on such an
  object is the loop over the other names.
\<close>

theorem attribute_error_skipped:
  "process_attrs H (pre @ (key, Raises AttributeError) # post) meta d s
     = process_attrs H (pre @ post) meta d s
   \<and> (d < 5 \<and> H a = OObj c True (pre @ (key, Raises AttributeError) # post) \<longrightarrow>
         process_response H (RObj a) meta d s = process_attrs H (pre @ post) meta (d + 1) s)"
  by (simp add: attrs_skip process_response.simps[of H "RObj a"])

theorem attribute_error_skipped_witness:
  "(0::nat) < 5
   \<and> heap_attr 0 = OObj False True ([] @ (''a'', Raises AttributeError) # [(''b'', Gives (RMsg 2))])
   \<and> fst (process_response heap_attr (RObj 0) ([''b''], md_b) 0 state_b) = None
   \<and> map chunk_ref (stream (snd (process_response heap_attr (RObj 0) ([''b''], md_b) 0 state_b)))
       = [2]"
proof -
  have h: "heap_attr 0 = OObj False True ([] @ (''a'', Raises AttributeError) # [(''b'', Gives (RMsg 2))])"
    by (simp add: heap_attr_def)
  have e: "process_attrs heap_attr ([] @ [(''b'', Gives (RMsg 2))]) ([''b''], md_b) (0 + 1) state_b
           = (None, emit ([''b''], md_b) 2 True state_b)"
    by (simp add: is_dunder_def process_response.simps)
  have f: "map chunk_ref (stream (emit ([''b''], md_b) 2 True state_b)) = [2]"
    by (simp add: emit_def state_b_def init_def store_m_def)
  from attribute_error_skipped [where H=heap_attr and pre="[]" and key="''a''" and post="[(''b'', Gives (RMsg 2))]"
      and meta="([''b''], md_b)" and d=0 and s=state_b and a=0 and c=False] h e f
  show ?thesis by simp
qed

text \<open>
  C5.  A node-start event that registers the run, with a dict as inputs: for a
  value of the dict that is a message, or a sequence that holds a message, with
  identity \<open>X\<close>, the handler returns with the run registered and \<open>X\<close> in the
  Seen-Set, and changes neither the messages nor the calls to the sink.  After
  any events that follow (the model calls and inner invocations of the node),
  \<open>X\<close> is still in the Seen-Set, and the node-end event for the run, whatever the
  response, removes the registry entry and makes no call to the sink for that
  message, nor for any other message \<open>m'\<close> with identity \<open>X\<close>.
\<close>

theorem input_seeding:
  assumes "md \<noteq> []" and "name = dict_get md ''langgraph_node''"
    and "not_tags tags \<or> \<not> tag_in (TAG_HIDDEN K) tags"
    and "checkpoint_ns K md = Inr path"
    and "H a = ODict kvs" and "(key, v) \<in> set kvs"
    and "v = RMsg m \<or> (\<exists>b xs. v = RObj b \<and> H b = OSeq xs \<and> RMsg m \<in> set xs)"
    and "msg_id (msgs s m) = Some X" and "msg_id (msgs s m') = Some X"
  shows "\<exists>s1. on_chain_start K H (RObj a) run tags (Some md) name s = (None, s1)
           \<and> metadata s1 run = Some (path, md) \<and> Some X \<in> seen s1
           \<and> msgs s1 = msgs s \<and> stream s1 = stream s
           \<and> Some X \<in> seen (run_events K H2 evs s1)
           \<and> metadata (snd (on_chain_end H' response run (run_events K H2 evs s1))) run = None
           \<and> (\<exists>new. stream (snd (on_chain_end H' response run (run_events K H2 evs s1)))
                        = stream (run_events K H2 evs s1) @ new
                 \<and> (\<forall>c \<in> set new. chunk_ref c \<noteq> m \<and> chunk_ref c \<noteq> m'))"
proof -
  let ?s0 = "s\<lparr>metadata := (metadata s)(run \<mapsto> (path, md))\<rparr>"
  let ?s1 = "seed_inputs H kvs ?s0"
  let ?s2 = "run_events K H2 evs ?s1"
  have st: "on_chain_start K H (RObj a) run tags (Some md) name s = (None, ?s1)"
    using assms(1-5) by (simp add: on_chain_start_def)
  have fr: "metadata ?s1 = metadata ?s0" "msgs ?s1 = msgs ?s0" "stream ?s1 = stream ?s0"
    by (simp_all add: seed_inputs_frame)
  have x: "Some X \<in> seen ?s1"
    using seed_inputs_adds[OF assms(6,7), of ?s0 X] assms(8) by simp
  have i1: "msg_id (msgs ?s1 m) = Some X" and i2: "msg_id (msgs ?s1 m') = Some X"
    using fr assms(8,9) by simp_all
  from seeded_kept[OF x i1, of K H2 evs] seeded_kept[OF x i2, of K H2 evs]
  have x2: "Some X \<in> seen ?s2" and j1: "msg_id (msgs ?s2 m) = Some X"
    and j2: "msg_id (msgs ?s2 m') = Some X" by simp_all
  from on_chain_end_suppressed[OF j1 x2, of H' response run] obtain n1 where
    a: "metadata (snd (on_chain_end H' response run ?s2)) run = None"
       "stream (snd (on_chain_end H' response run ?s2)) = stream ?s2 @ n1"
       "\<forall>c \<in> set n1. chunk_ref c \<noteq> m" by blast
  from on_chain_end_suppressed[OF j2 x2, of H' response run] obtain n2 where
    b: "stream (snd (on_chain_end H' response run ?s2)) = stream ?s2 @ n2"
       "\<forall>c \<in> set n2. chunk_ref c \<noteq> m'" by blast
  from a(2) b(1) have "n1 = n2" by simp
  with a b have "\<exists>new. stream (snd (on_chain_end H' response run ?s2)) = stream ?s2 @ new
                 \<and> (\<forall>c \<in> set new. chunk_ref c \<noteq> m \<and> chunk_ref c \<noteq> m')" by blast
  with st fr x x2 a(1) show ?thesis by simp
qed

theorem input_seeding_witness:
  "md_b \<noteq> [] \<and> MStr ''N'' = dict_get md_b ''langgraph_node''
   \<and> (not_tags None \<or> \<not> tag_in (TAG_HIDDEN example_constants) None)
   \<and> checkpoint_ns example_constants md_b = Inr [''b'']
   \<and> heap_io 0 = ODict [(''msg'', RMsg 1), (''messages'', RObj 1)]
   \<and> heap_io 1 = OSeq [RMsg 2]
   \<and> msg_id (msgs (init store_m uuids) 2) = Some ''m2''
   \<and> seen (snd (on_chain_start example_constants heap_io (RObj 0) 2 None (Some md_b) (MStr ''N'')
                  (init store_m uuids))) = {Some ''m1'', Some ''m2''}
   \<and> map chunk_ref (stream (run_events example_constants heap_io model_events
          (snd (on_chain_start example_constants heap_io (RObj 0) 2 None (Some md_b) (MStr ''N'')
                  (init store_m uuids))))) = [3]
   \<and> map chunk_ref (stream (snd (on_chain_end heap_io (RObj 2) 2
          (run_events example_constants heap_io model_events
          (snd (on_chain_start example_constants heap_io (RObj 0) 2 None (Some md_b) (MStr ''N'')
                  (init store_m uuids))))))) = [3]"
proof -
  have h1: "md_b \<noteq> []" and h2: "MStr ''N'' = dict_get md_b ''langgraph_node''"
    by (simp_all add: md_b_def dict_get_def)
  have h3: "not_tags None \<or> \<not> tag_in (TAG_HIDDEN example_constants) None"
    by (simp add: not_tags_def)
  have h4: "checkpoint_ns example_constants md_b = Inr [''b'']"
    by (simp add: checkpoint_ns_def md_b_def example_constants_def str_split_def)
  have h5: "heap_io 0 = ODict [(''msg'', RMsg 1), (''messages'', RObj 1)]"
    and h5': "heap_io 1 = OSeq [RMsg 2]"
    by (simp_all add: heap_io_def)
  have h6: "(''messages'', RObj 1) \<in> set [(''msg'', RMsg 1), (''messages'', RObj 1)]" by simp
  have h7: "RObj 1 = RMsg 2 \<or> (\<exists>b xs. RObj 1 = RObj b \<and> heap_io b = OSeq xs \<and> RMsg 2 \<in> set xs)"
    using h5' by simp
  have h8: "msg_id (msgs (init store_m uuids) 2) = Some ''m2''"
    by (simp add: init_def store_m_def)
  let ?s1 = "(init store_m uuids)\<lparr>metadata := [2 \<mapsto> ([''b''], md_b)],
                                     seen := {Some ''m1'', Some ''m2''}\<rparr>"
  have st: "on_chain_start example_constants heap_io (RObj 0) 2 None (Some md_b) (MStr ''N'')
              (init store_m uuids) = (None, ?s1)"
    using h1 h2 h3 h4 h5 h5'
    by (auto simp: on_chain_start_def seed_def init_def store_m_def)
  have h9: "checkpoint_ns example_constants md_a = Inr [''a'']"
    by (simp add: checkpoint_ns_def md_a_def example_constants_def str_split_def)
  have ev: "map chunk_ref (stream (run_events example_constants heap_io model_events ?s1)) = [3]"
    using h9
    by (simp add: model_events_def on_chat_model_start_def on_llm_new_token_def on_llm_end_def
        pop_run_def not_tags_def tags_or_empty_def md_a_def emit_def Let_def init_def
        store_m_def)
  have en: "map chunk_ref (stream (snd (on_chain_end heap_io (RObj 2) 2
               (run_events example_constants heap_io model_events ?s1)))) = [3]"
    using h9
    by (simp add: model_events_def on_chat_model_start_def on_llm_new_token_def on_llm_end_def
        on_chain_end_def process_response.simps heap_io_def
        pop_run_def not_tags_def tags_or_empty_def md_a_def emit_def Let_def init_def
        store_m_def)
  from input_seeding [where H'=heap_io and response="RObj 2" and run=2
      and ?H2.0=heap_io and evs=model_events,
      OF h1 h2 h3 h4 h5 h6 h7 h8 h8] h1 h2 h3 h4 h5 h5' h8 st ev en
  show ?thesis by simp
qed





text \<open>
  C10.  The Seen-Set never contains \<open>None\<close>: not after any sequence of events
  from the initial state, and each handler and the emitter keep it so.  Hence a
  message without identity is not taken for a seen one: the emitter with
  \<open>dedupe=True\<close> forwards it with the identity just generated, the extractor does
  so at every depth below 5, and so does the node-end handler of a registered
  run whose response is the message.
\<close>

theorem seen_never_null:
  "None \<notin> seen (run_events K H evs (init M G))
   \<and> (None \<notin> seen s \<longrightarrow>
         None \<notin> seen (snd (handle K H ev s)) \<and> None \<notin> seen (emit meta m dd s))
   \<and> (None \<notin> seen s \<and> msg_id (msgs s m) = None \<longrightarrow>
         (\<exists>c. stream (emit meta m True s) = stream s @ [c] \<and> chunk_ref c = m
               \<and> msg_id (chunk_msg c) = Some (uuid4 s))
         \<and> (d < 5 \<longrightarrow> process_response H (RMsg m) meta d s = (None, emit meta m True s))
         \<and> (metadata s run = Some meta \<longrightarrow>
               (\<exists>c. stream (snd (on_chain_end H (RMsg m) run s)) = stream s @ [c]
                     \<and> chunk_ref c = m \<and> msg_id (chunk_msg c) = Some (uuid4 s))))"
proof (intro conjI impI)
  have "None \<notin> seen (init M G)" by (simp add: init_def)
  then show "None \<notin> seen (run_events K H evs (init M G))" by (rule no_null_run)
next
  assume "None \<notin> seen s"
  then show "None \<notin> seen (snd (handle K H ev s))" by (rule no_null_handle)
next
  assume "None \<notin> seen s"
  then show "None \<notin> seen (emit meta m dd s)" by (rule no_null_emit)
next
  assume a: "None \<notin> seen s \<and> msg_id (msgs s m) = None"
  then have f: "\<not> (True \<and> msg_id (msgs s m) \<in> seen s)" by simp
  from emit_forward(1,2)[OF f, of meta] a
  show "\<exists>c. stream (emit meta m True s) = stream s @ [c] \<and> chunk_ref c = m
             \<and> msg_id (chunk_msg c) = Some (uuid4 s)" by simp
next
  assume "d < 5"
  then show "process_response H (RMsg m) meta d s = (None, emit meta m True s)"
    by (simp add: process_response.simps)
next
  assume a: "None \<notin> seen s \<and> msg_id (msgs s m) = None" and r: "metadata s run = Some meta"
  let ?s = "pop_run run s"
  have f: "\<not> (True \<and> msg_id (msgs ?s m) \<in> seen ?s)" using a by (simp add: pop_run_def)
  have e: "on_chain_end H (RMsg m) run s = (None, emit meta m True ?s)"
    using r by (simp add: on_chain_end_def process_response.simps)
  from emit_forward(1,2)[OF f, of meta] a
  show "\<exists>c. stream (snd (on_chain_end H (RMsg m) run s)) = stream s @ [c]
             \<and> chunk_ref c = m \<and> msg_id (chunk_msg c) = Some (uuid4 s)"
    by (simp add: e) (simp add: pop_run_def uuid4_def)
qed

theorem seen_never_null_witness:
  "None \<notin> seen state_hi \<and> msg_id (msgs state_hi 0) = None
   \<and> metadata state_hi 2 = Some ([''b''], md_b)
   \<and> process_response no_objects (RMsg 0) ([''b''], md_b) 0 state_hi
       = (None, emit ([''b''], md_b) 0 True state_hi)
   \<and> length (stream (snd (on_chain_end no_objects (RMsg 0) 2 state_hi))) = 1"
proof -
  have h: "None \<notin> seen state_hi" "msg_id (msgs state_hi 0) = None"
    "metadata state_hi 2 = Some ([''b''], md_b)" "stream state_hi = []" "(0::nat) < 5"
    by (simp_all add: state_hi_def init_def store_hi_def)
  from seen_never_null [of example_constants no_objects "[]" store_hi uuids state_hi
      "LLMEnd 2" "([''b''], md_b)" 0 True 0 2] h
  show ?thesis by auto
qed

end
